theory Spec2Isabelle
  imports Main "HOL-Library.Sublist" "HOL-Library.Multiset"
begin

section \<open>The SMS sender: data\<close>

text \<open>
  The program is one Python module, \<^verbatim>\<open>automated_SMS_Sender.py\<close>. Its engine is the
  callback \<^verbatim>\<open>send_sms\<close> with the helpers \<^verbatim>\<open>is_valid_phone_number\<close>,
  \<^verbatim>\<open>send_single_sms\<close> and \<^verbatim>\<open>check_message_status\<close>.

  A row of the loaded spreadsheet has the two columns the code reads. Both cells are taken
  to hold text: on text \<^verbatim>\<open>str(row['Phone Number'])\<close> is the identity, and
  \<^verbatim>\<open>str.replace\<close> accepts the name. Characters are the 8-bit characters of
  \<^typ>\<open>string\<close>; among them the decimal digits that Python's \<^verbatim>\<open>\d\<close> accepts are
  exactly \<^verbatim>\<open>0\<close> to \<^verbatim>\<open>9\<close>.
\<close>

record row =
  Name :: string
  Phone_Number :: string

text \<open>
  Every call into the Twilio client either returns a value or raises; the code catches
  \<^verbatim>\<open>Exception\<close> around each of them.
\<close>

datatype 'a response = Returns 'a | Raises

text \<open>
  The lines written through \<^verbatim>\<open>logging\<close>, one constructor per message format of the
  source, carrying the values the format string interpolates (timestamps and exception
  texts left out).
\<close>

datatype log_event =
    Invalid_phone_number_skipped string
  | Skipping_opted_out_number string
  | Message_sent string string string
  | Failed_to_send_message string string
  | Message_delivered string string
  | Message_failed string string
  | Delivery_status_unknown string string
  | Failed_to_check_status string string
  | Failed_to_authenticate
  | SMS_sending_started
  | SMS_sending_finished

section \<open>Phone validation\<close>

text \<open>
  \<^verbatim>\<open>re.match(r'^\+\d+$', phone) is not None\<close>. The match starts at the first character;
  \<^verbatim>\<open>\d+\<close> is greedy and takes every digit that follows the plus sign; without the
  MULTILINE flag \<^verbatim>\<open>$\<close> holds at the end of the string and also just before a newline
  that is the last character of the string. Giving digits back cannot help: the position
  after fewer digits is followed by a digit.
\<close>

definition is_digit :: "char \<Rightarrow> bool" where
  "is_digit c = (c \<in> set ''0123456789'')"

definition at_dollar :: "string \<Rightarrow> bool" where
  "at_dollar rest = (rest = [] \<or> rest = [CHR 0x0A])"

definition is_valid_phone_number :: "string \<Rightarrow> bool" where
  "is_valid_phone_number phone =
     (case phone of
        [] \<Rightarrow> False
      | c # cs \<Rightarrow>
          c = CHR ''+'' \<and> takeWhile is_digit cs \<noteq> [] \<and> at_dollar (dropWhile is_digit cs))"

section \<open>Template rendering\<close>

text \<open>
  \<^verbatim>\<open>str.replace(old, new)\<close>: scanning from the left, every occurrence of \<^verbatim>\<open>old\<close> that
  does not overlap an earlier replaced one is replaced by \<^verbatim>\<open>new\<close>; the inserted text
  is not scanned again. With an empty \<^verbatim>\<open>old\<close> Python inserts \<^verbatim>\<open>new\<close> before every
  character and at the end.
\<close>

function replace_scan :: "'a list \<Rightarrow> 'a list \<Rightarrow> 'a list \<Rightarrow> 'a list" where
  "replace_scan old new s =
     (if s = [] then []
      else if old \<noteq> [] \<and> prefix old s then new @ replace_scan old new (drop (length old) s)
      else hd s # replace_scan old new (tl s))"
  by pat_completeness auto
termination
  by (relation "measure (\<lambda>(old, new, s). length s)") auto

definition str_replace :: "'a list \<Rightarrow> 'a list \<Rightarrow> 'a list \<Rightarrow> 'a list" where
  "str_replace s old new =
     (if old = [] then new @ concat (map (\<lambda>c. c # new) s) else replace_scan old new s)"

text \<open>Line 142: \<^verbatim>\<open>message_template.replace("{Name}", customer_name)\<close>.\<close>

definition render :: "string \<Rightarrow> string \<Rightarrow> string" where
  "render message_template customer_name = str_replace message_template ''{Name}'' customer_name"

section \<open>Status polling\<close>

text \<open>
  \<^verbatim>\<open>check_message_status\<close> fetches the message up to ten times. The argument
  \<open>fetch\<close> gives what the \<open>i\<close>-th call of \<^verbatim>\<open>client.messages(message_sid).fetch().status\<close>
  of this poll does: return a status or raise. The result is the returned boolean, the one
  line logged and the number of fetch calls made. The two-second sleeps between attempts
  are not represented.
\<close>

type_synonym status_check = "bool \<times> log_event \<times> nat"

fun check_loop :: "(nat \<Rightarrow> string response) \<Rightarrow> string \<Rightarrow> string \<Rightarrow> nat \<Rightarrow> nat \<Rightarrow> status_check" where
  "check_loop fetch customer_name customer_phone i 0 =
     (False, Delivery_status_unknown customer_name customer_phone, i)"
| "check_loop fetch customer_name customer_phone i (Suc n) =
     (case fetch i of
        Raises \<Rightarrow> (False, Failed_to_check_status customer_name customer_phone, Suc i)
      | Returns msg_status \<Rightarrow>
          if msg_status = ''delivered''
          then (True, Message_delivered customer_name customer_phone, Suc i)
          else if msg_status \<in> set [''failed'', ''undelivered'']
          then (False, Message_failed customer_name customer_phone, Suc i)
          else check_loop fetch customer_name customer_phone (Suc i) n)"

definition check_message_status ::
  "(nat \<Rightarrow> string response) \<Rightarrow> string \<Rightarrow> string \<Rightarrow> string \<Rightarrow> status_check" where
  "check_message_status fetch message_sid customer_name customer_phone =
     check_loop fetch customer_name customer_phone 0 10"

text \<open>A fetch after which the loop goes on: a status that is none of the three terminal ones.\<close>

definition pending :: "string response \<Rightarrow> bool" where
  "pending r =
     (case r of
        Raises \<Rightarrow> False
      | Returns msg_status \<Rightarrow>
          msg_status \<noteq> ''delivered'' \<and> msg_status \<noteq> ''failed'' \<and> msg_status \<noteq> ''undelivered'')"

section \<open>The Twilio account and the window\<close>

text \<open>
  What the provider does is an input of the model. \<open>accounts_fetch\<close> answers the credential
  check of lines 108 and 109. \<open>messages_create i\<close> answers the \<^verbatim>\<open>client.messages.create\<close>
  call of the \<open>i\<close>-th submitted job (arguments: body, sender, destination).
  \<open>messages_fetch k sid\<close> answers the successive fetches of the \<open>k\<close>-th status check.
  \<open>completion\<close> decides the order in which \<^verbatim>\<open>as_completed\<close> hands the futures back.
\<close>

record twilio =
  accounts_fetch :: "string \<Rightarrow> string \<Rightarrow> unit response"
  messages_create :: "nat \<Rightarrow> string \<Rightarrow> string \<Rightarrow> string \<Rightarrow> string response"
  messages_fetch :: "nat \<Rightarrow> string \<Rightarrow> nat \<Rightarrow> string response"
  completion :: "nat list"

text \<open>
  The globals \<^verbatim>\<open>customer_data\<close> (\<^verbatim>\<open>None\<close> until a spreadsheet is loaded) and
  \<^verbatim>\<open>opted_out_numbers\<close>, and the contents of the four entry widgets.
\<close>

record gui =
  customer_data :: "row list option"
  opted_out_numbers :: "string set"
  sid_entry :: string
  token_entry :: string
  phone_entry :: string
  message_entry :: string

datatype api_call =
    Accounts_fetch string
  | Messages_create string string string
  | Messages_fetch string

datatype messagebox = Showerror string string | Showinfo string string

datatype exception = NameError

text \<open>
  What a call of \<^verbatim>\<open>send_sms\<close> leaves behind: the dialog shown, the log lines, the calls
  made to the provider, the list \<^verbatim>\<open>message_sids\<close>, the lines printed, and an exception
  that left the function, if any. The log lines are grouped by the place that writes them:
  the lines of the worker threads (\<open>send_log\<close>, in submission order) interleave with those
  of the submission loop (\<open>skip_log\<close>) as the threads happen to run. \<open>calls\<close> lists the
  credential check, then the create calls in submission order, then the fetches. Updates
  of the progress bar and of the buttons are not represented.
\<close>

record run =
  dialog :: "messagebox option"
  run_log :: "log_event list"
  skip_log :: "log_event list"
  send_log :: "log_event list"
  status_log :: "log_event list"
  calls :: "api_call list"
  message_sids :: "(string \<times> string \<times> string) list"
  printed :: "string list"
  uncaught :: "exception option"

definition no_run :: run where
  "no_run = \<lparr>dialog = None, run_log = [], skip_log = [], send_log = [], status_log = [],
     calls = [], message_sids = [], printed = [], uncaught = None\<rparr>"

section \<open>Sending\<close>

text \<open>
  \<^verbatim>\<open>send_single_sms\<close>: the message SID on success, \<^verbatim>\<open>None\<close> when the create call
  raises, and the line logged.
\<close>

definition send_single_sms ::
  "(string \<Rightarrow> string \<Rightarrow> string \<Rightarrow> string response) \<Rightarrow> string \<Rightarrow> string \<Rightarrow> string \<Rightarrow> string
     \<Rightarrow> string option \<times> log_event" where
  "send_single_sms create twilio_phone_number customer_name customer_phone message_body =
     (case create message_body twilio_phone_number customer_phone of
        Returns sid \<Rightarrow> (Some sid, Message_sent customer_name customer_phone sid)
      | Raises \<Rightarrow> (None, Failed_to_send_message customer_name customer_phone))"

text \<open>The arguments of one \<^verbatim>\<open>executor.submit(send_single_sms, ...)\<close>.\<close>

record submitted =
  to_name :: string
  to_phone :: string
  body :: string

text \<open>
  The state of the submission loop (lines 130 to 144): the loop variable \<^verbatim>\<open>row\<close>, unbound
  before the first iteration, the futures submitted and the lines logged for skipped rows.
\<close>

record submission =
  loop_row :: "row option"
  futures :: "submitted list"
  skipped :: "log_event list"

definition submit_row :: "string set \<Rightarrow> string \<Rightarrow> submission \<Rightarrow> row \<Rightarrow> submission" where
  "submit_row opted_out message_template st r =
     (let st = st\<lparr>loop_row := Some r\<rparr>;
          customer_name = Name r;
          customer_phone = Phone_Number r
      in if \<not> is_valid_phone_number customer_phone
         then st\<lparr>skipped := skipped st @ [Invalid_phone_number_skipped customer_phone]\<rparr>
         else if customer_phone \<in> opted_out
         then st\<lparr>skipped := skipped st @ [Skipping_opted_out_number customer_phone]\<rparr>
         else st\<lparr>futures := futures st @
                [\<lparr>to_name = customer_name, to_phone = customer_phone,
                  body = render message_template customer_name\<rparr>]\<rparr>)"

definition submit_all :: "string set \<Rightarrow> string \<Rightarrow> row list \<Rightarrow> submission" where
  "submit_all opted_out message_template data =
     foldl (submit_row opted_out message_template)
       \<lparr>loop_row = None, futures = [], skipped = []\<rparr> data"

text \<open>
  The pool runs every submitted job; job \<open>i\<close> gets the provider's answer \<open>messages_create i\<close>.
\<close>

definition run_jobs :: "twilio \<Rightarrow> string \<Rightarrow> submitted list \<Rightarrow> (string option \<times> log_event) list" where
  "run_jobs tw twilio_phone_number jobs =
     map (\<lambda>(i, j). send_single_sms (messages_create tw i) twilio_phone_number
                      (to_name j) (to_phone j) (body j))
       (enumerate 0 jobs)"

text \<open>
  \<^verbatim>\<open>as_completed(futures)\<close> yields every future once, in the order in which the jobs
  finish, which the code does not control. The list \<open>picks\<close> chooses, at each step, which
  of the futures not yet yielded comes next (its position among them, modulo their number);
  when the choices run out the rest comes in submission order.
\<close>

fun as_completed :: "nat list \<Rightarrow> 'a list \<Rightarrow> 'a list" where
  "as_completed picks [] = []"
| "as_completed [] (f # fs) = f # fs"
| "as_completed (p # picks) (f # fs) =
     (let i = p mod length (f # fs)
      in (f # fs) ! i # as_completed picks (take i (f # fs) @ drop (Suc i) (f # fs)))"

text \<open>
  Lines 146 to 151: a truthy result (an SID that is not the empty string) is appended to
  \<^verbatim>\<open>message_sids\<close> together with two cells of \<^verbatim>\<open>row\<close>, the variable of the loop that
  has ended; reading it while unbound raises \<^verbatim>\<open>NameError\<close>.
\<close>

fun collect ::
  "row option \<Rightarrow> string option list \<Rightarrow> (string \<times> string \<times> string) list
     \<Rightarrow> exception + (string \<times> string \<times> string) list" where
  "collect r [] sids = Inr sids"
| "collect r (None # results) sids = collect r results sids"
| "collect r (Some message_sid # results) sids =
     (if message_sid = [] then collect r results sids
      else (case r of
              None \<Rightarrow> Inl NameError
            | Some rw \<Rightarrow> collect r results (sids @ [(message_sid, Name rw, Phone_Number rw)])))"

text \<open>Lines 154 to 159: one status check per entry of \<^verbatim>\<open>message_sids\<close>, in list order.\<close>

definition check_all :: "twilio \<Rightarrow> (string \<times> string \<times> string) list \<Rightarrow> status_check list" where
  "check_all tw sids =
     map (\<lambda>(k, (message_sid, customer_name, customer_phone)).
            check_message_status (messages_fetch tw k message_sid)
              message_sid customer_name customer_phone)
       (enumerate 0 sids)"

definition fetch_calls :: "(string \<times> string \<times> string) list \<Rightarrow> status_check list \<Rightarrow> api_call list" where
  "fetch_calls sids checked =
     concat (map (\<lambda>((message_sid, _), (_, _, n)). replicate n (Messages_fetch message_sid))
               (zip sids checked))"

definition print_line :: "status_check \<Rightarrow> string" where
  "print_line c = (if fst c then ''Message sent'' else ''Message haven't sent'')"

text \<open>Lines 120 to 165, once the checks of lines 90 to 118 have passed.\<close>

definition dispatch :: "twilio \<Rightarrow> gui \<Rightarrow> row list \<Rightarrow> run" where
  "dispatch tw g data =
     (let st = submit_all (opted_out_numbers g) (message_entry g) data;
          sent = run_jobs tw (phone_entry g) (futures st);
          r = no_run\<lparr>run_log := [SMS_sending_started],
                skip_log := skipped st,
                send_log := map snd sent,
                calls := Accounts_fetch (sid_entry g) #
                  map (\<lambda>j. Messages_create (body j) (phone_entry g) (to_phone j)) (futures st)\<rparr>
      in case collect (loop_row st) (as_completed (completion tw) (map fst sent)) [] of
           Inl e \<Rightarrow> r\<lparr>uncaught := Some e\<rparr>
         | Inr sids \<Rightarrow>
             (let checked = check_all tw sids
              in r\<lparr>message_sids := sids,
                   status_log := map (\<lambda>c. fst (snd c)) checked,
                   calls := calls r @ fetch_calls sids checked,
                   printed := map print_line checked,
                   run_log := [SMS_sending_started, SMS_sending_finished],
                   dialog := Some (Showinfo ''Success'' ''SMS messages processed!'')\<rparr>))"

definition send_sms :: "twilio \<Rightarrow> gui \<Rightarrow> run" where
  "send_sms tw g =
     (case customer_data g of
        None \<Rightarrow> no_run\<lparr>dialog := Some (Showerror ''Error'' ''Please load customer data first.'')\<rparr>
      | Some data \<Rightarrow>
          if sid_entry g = [] \<or> token_entry g = [] \<or> phone_entry g = []
          then no_run\<lparr>dialog := Some (Showerror ''Error'' ''Please enter all Twilio credentials.'')\<rparr>
          else if message_entry g = []
          then no_run\<lparr>dialog := Some (Showerror ''Error'' ''Please enter the message text.'')\<rparr>
          else (case accounts_fetch tw (sid_entry g) (token_entry g) of
                  Raises \<Rightarrow>
                    no_run\<lparr>dialog := Some (Showerror ''Authentication Error''
                               (''Failed to authenticate Twilio credentials.'' @ [CHR 0x0A] @
                                ''Please check your Account SID, Auth Token, and Twilio Phone Number.'')),
                           run_log := [Failed_to_authenticate],
                           calls := [Accounts_fetch (sid_entry g)]\<rparr>
                | Returns _ \<Rightarrow> dispatch tw g data))"

section \<open>Notions used in the statements\<close>

text \<open>The four checks of lines 90 to 118 all pass.\<close>

definition checks_pass :: "twilio \<Rightarrow> gui \<Rightarrow> bool" where
  "checks_pass tw g =
     (customer_data g \<noteq> None \<and> sid_entry g \<noteq> [] \<and> token_entry g \<noteq> [] \<and> phone_entry g \<noteq> [] \<and>
      message_entry g \<noteq> [] \<and> accounts_fetch tw (sid_entry g) (token_entry g) = Returns ())"

text \<open>A row that passes both guards of the submission loop, and the job submitted for it.\<close>

definition eligible :: "string set \<Rightarrow> row \<Rightarrow> bool" where
  "eligible opted_out r =
     (is_valid_phone_number (Phone_Number r) \<and> Phone_Number r \<notin> opted_out)"

definition job_of :: "string \<Rightarrow> row \<Rightarrow> submitted" where
  "job_of message_template r =
     \<lparr>to_name = Name r, to_phone = Phone_Number r, body = render message_template (Name r)\<rparr>"

definition jobs_of :: "gui \<Rightarrow> row list \<Rightarrow> submitted list" where
  "jobs_of g data = map (job_of (message_entry g)) (filter (eligible (opted_out_numbers g)) data)"

text \<open>The line the submission loop logs for a row it skips.\<close>

definition skip_line :: "row \<Rightarrow> log_event" where
  "skip_line r =
     (if is_valid_phone_number (Phone_Number r) then Skipping_opted_out_number (Phone_Number r)
      else Invalid_phone_number_skipped (Phone_Number r))"

text \<open>What the jobs return, in submission order, and the truthy ones among such results.\<close>

definition send_results :: "twilio \<Rightarrow> gui \<Rightarrow> row list \<Rightarrow> string option list" where
  "send_results tw g data = map fst (run_jobs tw (phone_entry g) (jobs_of g data))"

fun truthy :: "string option list \<Rightarrow> string list" where
  "truthy [] = []"
| "truthy (None # results) = truthy results"
| "truthy (Some message_sid # results) =
     (if message_sid = [] then truthy results else message_sid # truthy results)"

fun is_create :: "api_call \<Rightarrow> bool" where
  "is_create (Messages_create b f t) = True"
| "is_create c = False"

text \<open>
  The pattern of the specification, \<^verbatim>\<open>^\+[0-9]+$\<close>, in the specification's words: digits
  only after a leading plus sign.
\<close>

definition plus_digits :: "string \<Rightarrow> bool" where
  "plus_digits phone =
     (case phone of [] \<Rightarrow> False | c # cs \<Rightarrow> c = CHR ''+'' \<and> cs \<noteq> [] \<and> list_all is_digit cs)"

text \<open>Pieces of text with a separator between each two neighbours.\<close>

fun join :: "'a list \<Rightarrow> 'a list list \<Rightarrow> 'a list" where
  "join sep [] = []"
| "join sep [s] = s"
| "join sep (s # t # ts) = s @ sep @ join sep (t # ts)"


section \<open>Concrete inputs\<close>

definition alice :: row where
  "alice = \<lparr>Name = ''Alice'', Phone_Number = ''+15551234567''\<rparr>"

definition bob :: row where
  "bob = \<lparr>Name = ''Bob'', Phone_Number = ''bad-phone''\<rparr>"

definition carl :: row where
  "carl = \<lparr>Name = ''Carl'', Phone_Number = ''+15559876543''\<rparr>"

text \<open>A cell that ends with a line break after the digits.\<close>

definition dan :: row where
  "dan = \<lparr>Name = ''Dan'', Phone_Number = ''+15550001111'' @ [CHR 0x0A]\<rparr>"

text \<open>
  A window with the four entries filled in, and an account that accepts the credentials,
  answers the \<open>i\<close>-th create call as \<open>created i\<close> says, reports every message as queued on
  the first two fetches and as delivered from the third, and completes the jobs as \<open>picks\<close>
  says.
\<close>

definition window :: "row list option \<Rightarrow> string set \<Rightarrow> gui" where
  "window data opted_out =
     \<lparr>customer_data = data, opted_out_numbers = opted_out, sid_entry = ''AC1'',
      token_entry = ''token'', phone_entry = ''+15550000000'', message_entry = ''Hi {Name}!''\<rparr>"

definition account :: "(nat \<Rightarrow> string response) \<Rightarrow> nat list \<Rightarrow> twilio" where
  "account created picks =
     \<lparr>accounts_fetch = (\<lambda>account_sid auth_token. Returns ()),
      messages_create = (\<lambda>i message_body sender destination. created i),
      messages_fetch = (\<lambda>k message_sid i. if i < 2 then Returns ''queued'' else Returns ''delivered''),
      completion = picks\<rparr>"

section \<open>Rendering: every placeholder, and nothing else\<close>

declare replace_scan.simps [simp del]

lemma replace_scan_Nil [simp]: "replace_scan old new [] = []"
  by (simp add: replace_scan.simps)

lemma replace_scan_hit:
  "old \<noteq> [] \<Longrightarrow> replace_scan old new (old @ s) = new @ replace_scan old new s"
  by (subst replace_scan.simps) simp

lemma replace_scan_miss:
  "\<not> prefix old (c # cs) \<Longrightarrow> replace_scan old new (c # cs) = c # replace_scan old new cs"
  by (subst replace_scan.simps) simp

lemma no_straddle:
  assumes free: "\<not> sublist old (c # cs)" and hd: "hd old \<notin> set (tl old)" and ne: "old \<noteq> []"
  shows "\<not> prefix old (c # cs @ old @ s)"
proof
  assume pre: "prefix old (c # cs @ old @ s)"
  from ne obtain p ps where old: "old = p # ps" by (cases old) auto
  from pre old have pc: "p = c" and pps: "prefix ps (cs @ p # ps @ s)" by auto
  from hd old have pnot: "p \<notin> set ps" by simp
  show False
  proof (cases "length ps \<le> length cs")
    case True
    with pps have "prefix ps cs"
      by (metis prefix_length_prefix prefix_append append_prefixD prefix_order.order_refl prefixI)
    then have "prefix old (c # cs)" using old pc by simp
    then have "sublist old (c # cs)" by (metis prefix_imp_sublist)
    with free show False by simp
  next
    case False
    then have len: "length cs < length ps" by simp
    from pps obtain zs where zs: "cs @ p # ps @ s = ps @ zs" by (auto simp: prefix_def)
    have "ps ! length cs = (ps @ zs) ! length cs" using len by (simp add: nth_append)
    also have "\<dots> = (cs @ p # ps @ s) ! length cs" using zs by simp
    also have "\<dots> = p" by simp
    finally have "ps ! length cs = p" .
    with len have "p \<in> set ps" by (metis nth_mem)
    with pnot show False by simp
  qed
qed

lemma replace_scan_segment:
  assumes hd: "hd old \<notin> set (tl old)" and ne: "old \<noteq> []"
  shows "\<not> sublist old seg \<Longrightarrow>
         replace_scan old new (seg @ old @ s) = seg @ new @ replace_scan old new s"
proof (induction seg)
  case Nil
  show ?case using ne by (simp add: replace_scan_hit)
next
  case (Cons c cs)
  have free: "\<not> sublist old cs" using Cons.prems by (metis sublist_Cons_right)
  have "\<not> prefix old (c # cs @ old @ s)"
    using no_straddle [OF Cons.prems hd ne] .
  then have "replace_scan old new ((c # cs) @ old @ s) = c # replace_scan old new (cs @ old @ s)"
    by (simp add: replace_scan_miss)
  then show ?case using Cons.IH [OF free] by simp
qed

lemma replace_scan_free:
  "\<not> sublist old seg \<Longrightarrow> replace_scan old new seg = seg"
proof (induction seg)
  case Nil
  show ?case by simp
next
  case (Cons c cs)
  have free: "\<not> sublist old cs" using Cons.prems by (metis sublist_Cons_right)
  have "\<not> prefix old (c # cs)" using Cons.prems by (metis prefix_imp_sublist)
  then show ?case using Cons.IH [OF free] by (simp add: replace_scan_miss)
qed

lemma replace_scan_join:
  "\<forall>seg\<in>set segs. \<not> sublist old seg \<Longrightarrow> hd old \<notin> set (tl old) \<Longrightarrow> old \<noteq> [] \<Longrightarrow>
   replace_scan old new (join old segs) = join new segs"
proof (induction old segs rule: join.induct)
  case (1 sep)
  show ?case by simp
next
  case (2 sep s)
  then show ?case by (simp add: replace_scan_free)
next
  case (3 sep s t ts)
  have free: "\<not> sublist sep s" using "3.prems"(1) by simp
  have rest: "\<forall>seg\<in>set (t # ts). \<not> sublist sep seg" using "3.prems"(1) by simp
  have "replace_scan sep new (s @ sep @ join sep (t # ts)) =
        s @ new @ replace_scan sep new (join sep (t # ts))"
    using replace_scan_segment [OF "3.prems"(2) "3.prems"(3) free] .
  then show ?case using "3.IH" [OF rest "3.prems"(2) "3.prems"(3)] by simp
qed

text \<open>
  Every template is a sequence of pieces free of the placeholder, with the placeholder
  between each two neighbours.
\<close>

lemma first_occurrence:
  "old \<noteq> [] \<Longrightarrow> sublist old t \<Longrightarrow> \<exists>ps ss. t = ps @ old @ ss \<and> \<not> sublist old ps"
proof (induction t)
  case Nil
  then show ?case by simp
next
  case (Cons c cs)
  show ?case
  proof (cases "prefix old (c # cs)")
    case True
    then obtain ss where "c # cs = [] @ old @ ss" by (auto simp: prefix_def)
    moreover have "\<not> sublist old []" using Cons.prems(1) by simp
    ultimately show ?thesis by blast
  next
    case False
    with Cons.prems(2) have "sublist old cs" by (simp add: sublist_Cons_right)
    from Cons.IH [OF Cons.prems(1) this] obtain ps ss
      where cs: "cs = ps @ old @ ss" and free: "\<not> sublist old ps" by blast
    have "\<not> prefix old (c # ps)"
    proof
      assume "prefix old (c # ps)"
      then have "prefix old ((c # ps) @ old @ ss)" by (rule prefix_prefix)
      with False cs show False by simp
    qed
    with free have "\<not> sublist old (c # ps)" by (simp add: sublist_Cons_right)
    moreover have "c # cs = (c # ps) @ old @ ss" using cs by simp
    ultimately show ?thesis by blast
  qed
qed

lemma join_Cons: "segs \<noteq> [] \<Longrightarrow> join sep (s # segs) = s @ sep @ join sep segs"
  by (cases segs) simp_all

lemma template_pieces:
  "old \<noteq> [] \<Longrightarrow> \<exists>segs. segs \<noteq> [] \<and> t = join old segs \<and> (\<forall>seg\<in>set segs. \<not> sublist old seg)"
proof (induction t rule: length_induct)
  case (1 t)
  show ?case
  proof (cases "sublist old t")
    case False
    then have "[t] \<noteq> [] \<and> t = join old [t] \<and> (\<forall>seg\<in>set [t]. \<not> sublist old seg)" by simp
    then show ?thesis by blast
  next
    case True
    from first_occurrence [OF "1.prems" True] obtain ps ss
      where t: "t = ps @ old @ ss" and free: "\<not> sublist old ps" by blast
    have "length ss < length t" using t "1.prems" by simp
    with "1.IH" "1.prems" obtain segs
      where segs: "segs \<noteq> []" "ss = join old segs" "\<forall>seg\<in>set segs. \<not> sublist old seg"
      by blast
    have "ps # segs \<noteq> [] \<and> t = join old (ps # segs) \<and> (\<forall>seg\<in>set (ps # segs). \<not> sublist old seg)"
      using t free segs by (simp add: join_Cons)
    then show ?thesis by blast
  qed
qed

lemma render_every_template:
  "\<exists>segs. message_template = join ''{Name}'' segs \<and> (\<forall>seg\<in>set segs. \<not> sublist ''{Name}'' seg) \<and>
     render message_template customer_name = join customer_name segs"
proof -
  obtain segs where segs: "message_template = join ''{Name}'' segs"
      "\<forall>seg\<in>set segs. \<not> sublist ''{Name}'' seg"
    using template_pieces [of "''{Name}''" message_template] by auto
  have "render message_template customer_name = join customer_name segs"
    unfolding render_def str_replace_def using segs by (simp add: replace_scan_join)
  with segs show ?thesis by blast
qed

text \<open>
  Claim C4. Rendering is the function \<open>render\<close> of the template and the recipient's name
  alone, so the same inputs give the same body. Written as pieces of text free of
  \<^verbatim>\<open>{Name}\<close> with one \<^verbatim>\<open>{Name}\<close> between each two neighbours, a template renders to the
  same pieces with the name between each two neighbours: each occurrence is replaced once,
  and all other text, other placeholders included, is passed on unchanged. By
  \<open>render_every_template\<close> every template has such a reading.
\<close>

theorem C4_render_replaces_each_placeholder:
  "\<forall>seg\<in>set segs. \<not> sublist ''{Name}'' seg \<Longrightarrow>
   render (join ''{Name}'' segs) customer_name = join customer_name segs"
  unfolding render_def str_replace_def
  by (simp add: replace_scan_join)

theorem C4_render_replaces_each_placeholder_witness:
  "render ''Hi {Name}, your code {Code} is ready. Bye {Name}{Name}!'' ''Alice'' =
     ''Hi Alice, your code {Code} is ready. Bye AliceAlice!''"
  using C4_render_replaces_each_placeholder
    [of "[''Hi '', '', your code {Code} is ready. Bye '', '''', ''!'']" "''Alice''"]
  by (simp add: sublist_code)

section \<open>Polling: bounded, and stopped by the first terminal status or error\<close>

lemma check_loop_pending:
  "k \<le> n \<Longrightarrow> (\<forall>j<k. pending (fetch (i + j))) \<Longrightarrow>
   check_loop fetch nm ph i n = check_loop fetch nm ph (i + k) (n - k)"
proof (induction k arbitrary: i n)
  case 0
  then show ?case by simp
next
  case (Suc k)
  from Suc.prems(1) obtain m where n: "n = Suc m" and km: "k \<le> m"
    by (cases n) auto
  from Suc.prems(2) have p0: "pending (fetch i)"
    by (metis add.right_neutral zero_less_Suc)
  from Suc.prems(2) have ps: "\<forall>j<k. pending (fetch (Suc i + j))"
    by (metis Suc_less_eq add_Suc_shift)
  from p0 obtain st where st: "fetch i = Returns st" "st \<noteq> ''delivered''"
    "st \<noteq> ''failed''" "st \<noteq> ''undelivered''"
    by (auto simp: pending_def split: response.splits)
  have "check_loop fetch nm ph i n = check_loop fetch nm ph (Suc i) m"
    using st n by simp
  also have "\<dots> = check_loop fetch nm ph (Suc i + k) (m - k)"
    using Suc.IH [OF km ps] .
  finally show ?case using n by simp
qed

lemma check_loop_count:
  "i \<le> snd (snd (check_loop fetch nm ph i n)) \<and> snd (snd (check_loop fetch nm ph i n)) \<le> i + n"
proof (induction n arbitrary: i)
  case 0
  then show ?case by simp
next
  case (Suc n)
  have ih: "Suc i \<le> snd (snd (check_loop fetch nm ph (Suc i) n)) \<and>
    snd (snd (check_loop fetch nm ph (Suc i) n)) \<le> Suc i + n"
    by (rule Suc.IH)
  show ?case using ih by (auto split: response.splits)
qed

lemma check_loop_cong:
  "(\<forall>j<n. f (i + j) = g (i + j)) \<Longrightarrow> check_loop f nm ph i n = check_loop g nm ph i n"
proof (induction n arbitrary: i)
  case 0
  then show ?case by simp
next
  case (Suc n)
  have a: "f i = g i" using Suc.prems by (metis add.right_neutral zero_less_Suc)
  have b: "\<forall>j<n. f (Suc i + j) = g (Suc i + j)" using Suc.prems
    by (metis Suc_less_eq add_Suc_shift)
  show ?case using a Suc.IH [OF b] by (simp split: response.splits)
qed

lemma check_loop_numeral:
  "check_loop fetch nm ph i (numeral k) =
     (case fetch i of
        Raises \<Rightarrow> (False, Failed_to_check_status nm ph, Suc i)
      | Returns msg_status \<Rightarrow>
          if msg_status = ''delivered'' then (True, Message_delivered nm ph, Suc i)
          else if msg_status \<in> set [''failed'', ''undelivered'']
          then (False, Message_failed nm ph, Suc i)
          else check_loop fetch nm ph (Suc i) (pred_numeral k))"
  by (simp only: numeral_eq_Suc check_loop.simps)

lemma check_message_status_stops:
  assumes k: "k < 10" and p: "\<forall>j<k. pending (fetch j)"
  shows "check_message_status fetch sid nm ph = check_loop fetch nm ph k (Suc (9 - k))"
proof -
  have "check_loop fetch nm ph 0 10 = check_loop fetch nm ph (0 + k) (10 - k)"
    using k p by (intro check_loop_pending) auto
  moreover have "10 - k = Suc (9 - k)" using k by arith
  ultimately show ?thesis by (simp add: check_message_status_def)
qed

lemma check_message_status_exhausted:
  assumes p: "\<forall>j<10. pending (fetch j)"
  shows "check_message_status fetch sid nm ph = (False, Delivery_status_unknown nm ph, 10)"
proof -
  have "check_loop fetch nm ph 0 10 = check_loop fetch nm ph (0 + 10) (10 - 10)"
    using p by (intro check_loop_pending) auto
  then show ?thesis by (simp add: check_message_status_def)
qed

text \<open>
  Claim C5. A status check makes at most ten fetches. If the \<open>k\<close>-th fetch (counting from 0,
  \<open>k < 10\<close>) is the first that does not return a non-terminal status and returns
  \<^verbatim>\<open>delivered\<close>, the check stops there, logs the delivery and returns \<^verbatim>\<open>True\<close> after
  \<open>k + 1\<close> fetches; if it returns \<^verbatim>\<open>failed\<close> or \<^verbatim>\<open>undelivered\<close>, the check stops
  there, logs the failure and returns \<^verbatim>\<open>False\<close>. If all ten fetches return non-terminal
  statuses, the check logs that the status is unknown after exactly ten fetches. What an
  eleventh fetch would return has no influence.
\<close>

theorem C5_poll_bounded:
  "snd (snd (check_message_status fetch sid nm ph)) \<le> 10
   \<and> (k < 10 \<and> (\<forall>j<k. pending (fetch j)) \<and> fetch k = Returns ''delivered''
        \<longrightarrow> check_message_status fetch sid nm ph = (True, Message_delivered nm ph, Suc k))
   \<and> (k < 10 \<and> (\<forall>j<k. pending (fetch j)) \<and>
          (fetch k = Returns ''failed'' \<or> fetch k = Returns ''undelivered'')
        \<longrightarrow> check_message_status fetch sid nm ph = (False, Message_failed nm ph, Suc k))
   \<and> ((\<forall>j<10. pending (fetch j))
        \<longrightarrow> check_message_status fetch sid nm ph = (False, Delivery_status_unknown nm ph, 10))
   \<and> ((\<forall>j<10. fetch' j = fetch j)
        \<longrightarrow> check_message_status fetch' sid nm ph = check_message_status fetch sid nm ph)"
proof (intro conjI impI)
  show "snd (snd (check_message_status fetch sid nm ph)) \<le> 10"
    using check_loop_count [of 0 fetch nm ph 10] by (simp add: check_message_status_def)
next
  assume "k < 10 \<and> (\<forall>j<k. pending (fetch j)) \<and> fetch k = Returns ''delivered''"
  then show "check_message_status fetch sid nm ph = (True, Message_delivered nm ph, Suc k)"
    using check_message_status_stops [of k fetch sid nm ph] by simp
next
  assume "k < 10 \<and> (\<forall>j<k. pending (fetch j)) \<and>
    (fetch k = Returns ''failed'' \<or> fetch k = Returns ''undelivered'')"
  then show "check_message_status fetch sid nm ph = (False, Message_failed nm ph, Suc k)"
    using check_message_status_stops [of k fetch sid nm ph] by auto
next
  assume "\<forall>j<10. pending (fetch j)"
  then show "check_message_status fetch sid nm ph = (False, Delivery_status_unknown nm ph, 10)"
    by (rule check_message_status_exhausted)
next
  assume "\<forall>j<10. fetch' j = fetch j"
  then show "check_message_status fetch' sid nm ph = check_message_status fetch sid nm ph"
    unfolding check_message_status_def by (intro check_loop_cong) simp
qed

theorem C5_poll_bounded_witness:
  "check_message_status (\<lambda>i. if i < 2 then Returns ''queued'' else Returns ''delivered'')
      ''M1'' ''Alice'' ''+15551234567'' = (True, Message_delivered ''Alice'' ''+15551234567'', 3)
   \<and> check_message_status (\<lambda>i. if i < 4 then Returns ''sent'' else Returns ''undelivered'')
      ''M3'' ''Alice'' ''+15551234567'' = (False, Message_failed ''Alice'' ''+15551234567'', 5)
   \<and> check_message_status (\<lambda>i. Returns ''queued'')
      ''M2'' ''Alice'' ''+15551234567'' = (False, Delivery_status_unknown ''Alice'' ''+15551234567'', 10)
   \<and> check_message_status (\<lambda>i. if i < 10 then Returns ''queued'' else Returns ''delivered'')
      ''M2'' ''Alice'' ''+15551234567'' = check_message_status (\<lambda>i. Returns ''queued'')
      ''M2'' ''Alice'' ''+15551234567''"
proof (intro conjI)
  show "check_message_status (\<lambda>i. if i < 2 then Returns ''queued'' else Returns ''delivered'')
      ''M1'' ''Alice'' ''+15551234567'' = (True, Message_delivered ''Alice'' ''+15551234567'', 3)"
    using C5_poll_bounded [of "\<lambda>i. if i < 2 then Returns ''queued'' else Returns ''delivered''"
        "''M1''" "''Alice''" "''+15551234567''" 2]
    by (simp add: pending_def)
  show "check_message_status (\<lambda>i. if i < 4 then Returns ''sent'' else Returns ''undelivered'')
      ''M3'' ''Alice'' ''+15551234567'' = (False, Message_failed ''Alice'' ''+15551234567'', 5)"
    using C5_poll_bounded [of "\<lambda>i. if i < 4 then Returns ''sent'' else Returns ''undelivered''"
        "''M3''" "''Alice''" "''+15551234567''" 4]
    by (simp add: pending_def)
  show "check_message_status (\<lambda>i. Returns ''queued'')
      ''M2'' ''Alice'' ''+15551234567'' = (False, Delivery_status_unknown ''Alice'' ''+15551234567'', 10)"
    using C5_poll_bounded [of "\<lambda>i. Returns ''queued''" "''M2''" "''Alice''" "''+15551234567''"]
    by (simp add: pending_def)
  show "check_message_status (\<lambda>i. if i < 10 then Returns ''queued'' else Returns ''delivered'')
      ''M2'' ''Alice'' ''+15551234567'' = check_message_status (\<lambda>i. Returns ''queued'')
      ''M2'' ''Alice'' ''+15551234567''"
    using C5_poll_bounded [of "\<lambda>i. Returns ''queued''" "''M2''" "''Alice''" "''+15551234567''" 0
        "\<lambda>i. if i < 10 then Returns ''queued'' else Returns ''delivered''"]
    by simp
qed

text \<open>
  The code has an unknown outcome of its own, reached when ten fetches return non-terminal
  statuses (lines 79 to 81). A fetch that raises does not lead to it: the check logs the
  failed status check instead, and the \<^verbatim>\<open>False\<close> it returns is also what a failed
  delivery returns.
\<close>

theorem C6_counterexample:
  "check_message_status (\<lambda>i. if i < 3 then Returns ''queued'' else Raises)
      ''M4'' ''Alice'' ''+15551234567'' =
     (False, Failed_to_check_status ''Alice'' ''+15551234567'', 4) \<and>
   Failed_to_check_status ''Alice'' ''+15551234567'' \<noteq>
     Delivery_status_unknown ''Alice'' ''+15551234567'' \<and>
   check_message_status (\<lambda>i. Returns ''queued'')
      ''M4'' ''Alice'' ''+15551234567'' =
     (False, Delivery_status_unknown ''Alice'' ''+15551234567'', 10) \<and>
   check_message_status (\<lambda>i. Returns ''failed'')
      ''M4'' ''Alice'' ''+15551234567'' =
     (False, Message_failed ''Alice'' ''+15551234567'', 1)"
  by (simp add: check_message_status_def check_loop_numeral)

text \<open>
  Claim C6, as the code has it. If the \<open>k\<close>-th fetch raises, after \<open>k\<close> fetches that
  returned non-terminal statuses, the check ends at once: \<open>k + 1\<close> fetches were made and no
  further one follows, the check returns \<^verbatim>\<open>False\<close>, and the one line logged is the failed
  status check, which is none of the delivered, failed and unknown lines.
\<close>

theorem C6_poll_error_abandons:
  "k < 10 \<Longrightarrow> \<forall>j<k. pending (fetch j) \<Longrightarrow> fetch k = Raises \<Longrightarrow>
   check_message_status fetch sid nm ph = (False, Failed_to_check_status nm ph, Suc k)"
  using check_message_status_stops [of k fetch sid nm ph] by simp

theorem C6_poll_error_abandons_witness:
  "check_message_status (\<lambda>i. if i < 3 then Returns ''queued'' else if i = 3 then Raises else Returns ''delivered'')
      ''M4'' ''Alice'' ''+15551234567'' = (False, Failed_to_check_status ''Alice'' ''+15551234567'', 4)"
  using C6_poll_error_abandons [of 3
      "\<lambda>i. if i < 3 then Returns ''queued'' else if i = 3 then Raises else Returns ''delivered''"
      "''M4''" "''Alice''" "''+15551234567''"]
  by (simp add: pending_def)

section \<open>The run, phase by phase\<close>

subsection \<open>The submission loop\<close>

lemma submit_row_futures:
  "futures (submit_row opted t st r) = futures st @ (if eligible opted r then [job_of t r] else [])"
  by (simp add: submit_row_def eligible_def job_of_def Let_def)

lemma submit_row_skipped:
  "skipped (submit_row opted t st r) = skipped st @ (if eligible opted r then [] else [skip_line r])"
  by (simp add: submit_row_def eligible_def skip_line_def Let_def)

lemma submit_row_loop_row: "loop_row (submit_row opted t st r) = Some r"
  by (simp add: submit_row_def Let_def)

lemma foldl_submit_futures:
  "futures (foldl (submit_row opted t) st data) =
     futures st @ map (job_of t) (filter (eligible opted) data)"
  by (induction data arbitrary: st) (simp_all add: submit_row_futures)

lemma foldl_submit_skipped:
  "skipped (foldl (submit_row opted t) st data) =
     skipped st @ map skip_line (filter (\<lambda>r. \<not> eligible opted r) data)"
  by (induction data arbitrary: st) (simp_all add: submit_row_skipped)

lemma foldl_submit_loop_row:
  "loop_row (foldl (submit_row opted t) st data) =
     (if data = [] then loop_row st else Some (last data))"
  by (induction data arbitrary: st) (simp_all add: submit_row_loop_row)

lemma submit_all_futures:
  "futures (submit_all opted t data) = map (job_of t) (filter (eligible opted) data)"
  by (simp add: submit_all_def foldl_submit_futures)

lemma submit_all_skipped:
  "skipped (submit_all opted t data) = map skip_line (filter (\<lambda>r. \<not> eligible opted r) data)"
  by (simp add: submit_all_def foldl_submit_skipped)

lemma submit_all_loop_row:
  "loop_row (submit_all opted t data) = (if data = [] then None else Some (last data))"
  by (simp add: submit_all_def foldl_submit_loop_row)

subsection \<open>The pool\<close>

lemma length_run_jobs: "length (run_jobs tw frm jobs) = length jobs"
  by (simp add: run_jobs_def)

lemma run_jobs_nth:
  "i < length jobs \<Longrightarrow>
   run_jobs tw frm jobs ! i =
     send_single_sms (messages_create tw i) frm
       (to_name (jobs ! i)) (to_phone (jobs ! i)) (body (jobs ! i))"
  by (simp add: run_jobs_def nth_enumerate_eq)

lemma as_completed_mset: "mset (as_completed picks fs) = mset fs"
proof (induction picks fs rule: as_completed.induct)
  case (1 picks)
  show ?case by simp
next
  case (2 f fs)
  show ?case by simp
next
  case (3 p picks f fs)
  define i where "i = p mod length (f # fs)"
  have i: "i < length (f # fs)" unfolding i_def by simp
  have ih: "mset (as_completed picks (take i (f # fs) @ drop (Suc i) (f # fs))) =
            mset (take i (f # fs) @ drop (Suc i) (f # fs))"
    using "3.IH" [of i] by (simp add: i_def)
  have "mset (f # fs) = mset (take i (f # fs) @ (f # fs) ! i # drop (Suc i) (f # fs))"
    using id_take_nth_drop [OF i] by simp
  then have split: "mset (f # fs) =
      add_mset ((f # fs) ! i) (mset (take i (f # fs) @ drop (Suc i) (f # fs)))"
    by simp
  have "as_completed (p # picks) (f # fs) =
      (f # fs) ! i # as_completed picks (take i (f # fs) @ drop (Suc i) (f # fs))"
    by (simp add: i_def Let_def)
  then show ?case using ih split by simp
qed

text \<open>Every order of the futures is the completion order for some choices.\<close>

lemma as_completed_any_order:
  "mset ys = mset fs \<Longrightarrow> \<exists>picks. as_completed picks fs = ys"
proof (induction ys arbitrary: fs)
  case Nil
  then have "fs = []" by simp
  then show ?case by simp
next
  case (Cons y ys)
  from Cons.prems have "y \<in> set fs" by (metis list.set_intros(1) mset_eq_setD)
  then obtain i where i: "i < length fs" and y: "fs ! i = y" by (auto simp: in_set_conv_nth)
  let ?rest = "take i fs @ drop (Suc i) fs"
  have "mset fs = add_mset y (mset ?rest)"
    using id_take_nth_drop [OF i] y by (metis mset.simps(2) mset_append union_mset_add_mset_right)
  with Cons.prems have "mset ys = mset ?rest" by simp
  from Cons.IH [OF this] obtain picks where picks: "as_completed picks ?rest = ys" by blast
  from i obtain f fs' where fs: "fs = f # fs'" by (cases fs) auto
  have "as_completed (i # picks) (f # fs') = (f # fs') ! i # as_completed picks (take i (f # fs') @ drop (Suc i) (f # fs'))"
    using i fs by (simp add: Let_def)
  then have "as_completed (i # picks) fs = y # ys" using fs y picks by simp
  then show ?case by blast
qed

lemma truthy_filter:
  "truthy results = map the (filter (\<lambda>r. r \<noteq> None \<and> r \<noteq> Some []) results)"
  by (induction results rule: truthy.induct) simp_all

lemma truthy_as_completed: "mset (truthy (as_completed picks results)) = mset (truthy results)"
proof -
  let ?P = "\<lambda>r::string option. r \<noteq> None \<and> r \<noteq> Some []"
  have "mset (filter ?P (as_completed picks results)) = mset (filter ?P results)"
    by (simp only: mset_filter as_completed_mset)
  then have "image_mset the (mset (filter ?P (as_completed picks results))) =
             image_mset the (mset (filter ?P results))"
    by (rule arg_cong)
  then show ?thesis by (simp only: truthy_filter mset_map)
qed


lemma length_truthy: "length (truthy results) \<le> length results"
  by (induction results rule: truthy.induct) (auto simp: le_Suc_eq)

subsection \<open>Collecting the message SIDs\<close>

lemma collect_bound:
  "collect (Some rw) results sids =
     Inr (sids @ map (\<lambda>sid. (sid, Name rw, Phone_Number rw)) (truthy results))"
  by (induction results arbitrary: sids rule: truthy.induct) simp_all

lemma collect_unbound: "truthy results = [] \<Longrightarrow> collect None results sids = Inr sids"
  by (induction results rule: truthy.induct) (simp_all split: if_splits)

subsection \<open>A run whose checks pass\<close>

lemma dispatch_eq:
  "dispatch tw g data =
     (let sids = map (\<lambda>sid. (sid, Name (last data), Phone_Number (last data)))
                   (truthy (as_completed (completion tw) (send_results tw g data)));
          checked = check_all tw sids
      in \<lparr>dialog = Some (Showinfo ''Success'' ''SMS messages processed!''),
          run_log = [SMS_sending_started, SMS_sending_finished],
          skip_log = map skip_line (filter (\<lambda>r. \<not> eligible (opted_out_numbers g) r) data),
          send_log = map snd (run_jobs tw (phone_entry g) (jobs_of g data)),
          status_log = map (\<lambda>c. fst (snd c)) checked,
          calls = Accounts_fetch (sid_entry g) #
            map (\<lambda>j. Messages_create (body j) (phone_entry g) (to_phone j)) (jobs_of g data) @
            fetch_calls sids checked,
          message_sids = sids,
          printed = map print_line checked,
          uncaught = None\<rparr>)"
proof (cases "data = []")
  case True
  then show ?thesis
    by (simp add: dispatch_def submit_all_def run_jobs_def send_results_def jobs_of_def
        no_run_def check_all_def fetch_calls_def)
next
  case False
  then show ?thesis
    by (simp add: dispatch_def Let_def submit_all_futures submit_all_skipped submit_all_loop_row
        collect_bound send_results_def jobs_of_def no_run_def)
qed

lemma send_sms_dispatch:
  "checks_pass tw g \<Longrightarrow> customer_data g = Some data \<Longrightarrow> send_sms tw g = dispatch tw g data"
  by (simp add: send_sms_def checks_pass_def)

lemma send_sms_not_started:
  "\<not> checks_pass tw g \<Longrightarrow>
   message_sids (send_sms tw g) = [] \<and> skip_log (send_sms tw g) = [] \<and>
   send_log (send_sms tw g) = [] \<and> status_log (send_sms tw g) = [] \<and>
   printed (send_sms tw g) = [] \<and> uncaught (send_sms tw g) = None \<and>
   set (calls (send_sms tw g)) \<subseteq> {Accounts_fetch (sid_entry g)}"
  by (auto simp: send_sms_def checks_pass_def no_run_def split: option.splits response.splits)

subsection \<open>Which calls a run makes\<close>

lemma jobs_of_eligible:
  "j \<in> set (jobs_of g data) \<Longrightarrow>
   is_valid_phone_number (to_phone j) \<and> to_phone j \<notin> opted_out_numbers g"
  by (auto simp: jobs_of_def job_of_def eligible_def)

lemma fetch_calls_set:
  "c \<in> set (fetch_calls sids checked) \<Longrightarrow> \<exists>sid\<in>fst ` set sids. c = Messages_fetch sid"
proof -
  assume "c \<in> set (fetch_calls sids checked)"
  then obtain e ch where z: "(e, ch) \<in> set (zip sids checked)"
    and c: "c \<in> set (case (e, ch) of ((message_sid, _), (_, _, n)) \<Rightarrow>
                      replicate n (Messages_fetch message_sid))"
    by (auto simp: fetch_calls_def)
  from z have "e \<in> set sids" by (rule set_zip_leftD)
  moreover from c have "c = Messages_fetch (fst e)" by (auto split: prod.splits)
  ultimately show ?thesis by blast
qed

lemma filter_create_fetch_calls: "filter is_create (fetch_calls sids checked) = []"
  by (auto simp: filter_empty_conv dest: fetch_calls_set)

lemma send_results_nth:
  "i < length (jobs_of g data) \<Longrightarrow>
   send_results tw g data ! i =
     (case messages_create tw i (body (jobs_of g data ! i)) (phone_entry g)
             (to_phone (jobs_of g data ! i)) of
        Returns sid \<Rightarrow> Some sid
      | Raises \<Rightarrow> None)"
  by (simp add: send_results_def length_run_jobs run_jobs_nth send_single_sms_def
      split: response.splits)

lemma length_send_results: "length (send_results tw g data) = length (jobs_of g data)"
  by (simp add: send_results_def length_run_jobs)



lemma started_calls:
  assumes "checks_pass tw g" and "customer_data g = Some data"
  shows "calls (send_sms tw g) =
           Accounts_fetch (sid_entry g) #
           map (\<lambda>j. Messages_create (body j) (phone_entry g) (to_phone j)) (jobs_of g data) @
           fetch_calls (message_sids (send_sms tw g)) (check_all tw (message_sids (send_sms tw g)))"
  using assms by (simp add: send_sms_dispatch dispatch_eq Let_def)

lemma started_message_sids:
  assumes "checks_pass tw g" and "customer_data g = Some data"
  shows "message_sids (send_sms tw g) =
           map (\<lambda>sid. (sid, Name (last data), Phone_Number (last data)))
             (truthy (as_completed (completion tw) (send_results tw g data)))"
  using assms by (simp add: send_sms_dispatch dispatch_eq Let_def)

lemma started_sids:
  assumes "checks_pass tw g" and "customer_data g = Some data"
  shows "map fst (message_sids (send_sms tw g)) =
           truthy (as_completed (completion tw) (send_results tw g data))"
  using assms by (simp add: started_message_sids comp_def)

lemma checks_pass_data: "checks_pass tw g \<Longrightarrow> \<exists>data. customer_data g = Some data"
  by (auto simp: checks_pass_def)

lemma no_create_unless_eligible:
  assumes "Messages_create b f phone \<in> set (calls (send_sms tw g))"
  shows "is_valid_phone_number phone \<and> phone \<notin> opted_out_numbers g"
proof (cases "checks_pass tw g")
  case False
  from send_sms_not_started [OF this] assms show ?thesis by auto
next
  case True
  then obtain data where data: "customer_data g = Some data" using checks_pass_data by blast
  from assms obtain j where "j \<in> set (jobs_of g data)" "phone = to_phone j"
    unfolding started_calls [OF True data] by (auto dest: fetch_calls_set)
  then show ?thesis using jobs_of_eligible by blast
qed


lemma skipped_row_logged:
  assumes "checks_pass tw g" and "customer_data g = Some data" and "r \<in> set data"
    and "\<not> eligible (opted_out_numbers g) r"
  shows "skip_line r \<in> set (skip_log (send_sms tw g))"
  using assms by (simp add: send_sms_dispatch dispatch_eq Let_def)

subsection \<open>Evaluating runs on concrete inputs\<close>

lemmas run_eval = send_sms_def dispatch_def submit_all_def submit_row_def Let_def
  is_valid_phone_number_def is_digit_def at_dollar_def render_def str_replace_def run_jobs_def
  send_single_sms_def no_run_def check_all_def check_message_status_def check_loop_numeral
  fetch_calls_def print_line_def window_def account_def alice_def bob_def carl_def dan_def
  enumerate_eq_zip replace_scan.simps checks_pass_def

subsection \<open>Phone validation against the pattern of the specification\<close>

lemma newline_not_digit: "\<not> is_digit (CHR 0x0A)"
  by (simp add: is_digit_def)

lemma plus_digits_valid:
  assumes "plus_digits phone"
  shows "is_valid_phone_number phone"
proof -
  from assms obtain ds where q: "phone = CHR ''+'' # ds" and ds: "ds \<noteq> []" "list_all is_digit ds"
    by (auto simp: plus_digits_def split: list.splits)
  have all: "\<forall>d\<in>set ds. is_digit d" using ds(2) by (simp add: list_all_iff)
  have "takeWhile is_digit ds \<noteq> []" using all ds(1) by (cases ds) auto
  then show ?thesis using q all by (simp add: is_valid_phone_number_def at_dollar_def)
qed

lemma plus_digits_newline_valid:
  assumes "plus_digits q"
  shows "is_valid_phone_number (q @ [CHR 0x0A])"
proof -
  from assms obtain ds where q: "q = CHR ''+'' # ds" and ds: "ds \<noteq> []" "list_all is_digit ds"
    by (auto simp: plus_digits_def split: list.splits)
  have all: "\<forall>d\<in>set ds. is_digit d" using ds(2) by (simp add: list_all_iff)
  have "takeWhile is_digit (ds @ [CHR 0x0A]) = ds"
    using all newline_not_digit by (simp add: takeWhile_append2)
  moreover have "dropWhile is_digit (ds @ [CHR 0x0A]) = [CHR 0x0A]"
    using all newline_not_digit by (simp add: dropWhile_append2)
  ultimately show ?thesis using q ds(1) by (simp add: is_valid_phone_number_def at_dollar_def)
qed

lemma valid_plus_digits:
  assumes "is_valid_phone_number phone"
  shows "plus_digits phone \<or> (\<exists>q. plus_digits q \<and> phone = q @ [CHR 0x0A])"
proof -
  from assms obtain cs where p: "phone = CHR ''+'' # cs" and tw: "takeWhile is_digit cs \<noteq> []"
    and dw: "at_dollar (dropWhile is_digit cs)"
    by (auto simp: is_valid_phone_number_def split: list.splits)
  have cs: "cs = takeWhile is_digit cs @ dropWhile is_digit cs" by simp
  have digits: "list_all is_digit (takeWhile is_digit cs)"
    by (auto simp: list_all_iff dest: set_takeWhileD)
  from dw consider "dropWhile is_digit cs = []" | "dropWhile is_digit cs = [CHR 0x0A]"
    by (auto simp: at_dollar_def)
  then show ?thesis
  proof cases
    case 1
    with cs have "cs = takeWhile is_digit cs" by simp
    with tw digits p have "plus_digits phone" by (simp add: plus_digits_def)
    then show ?thesis by blast
  next
    case 2
    with cs have "phone = (CHR ''+'' # takeWhile is_digit cs) @ [CHR 0x0A]" using p by simp
    moreover have "plus_digits (CHR ''+'' # takeWhile is_digit cs)"
      using tw digits by (simp add: plus_digits_def)
    ultimately show ?thesis by blast
  qed
qed

lemma is_valid_phone_number_iff:
  "is_valid_phone_number phone \<longleftrightarrow>
     plus_digits phone \<or> (\<exists>q. plus_digits q \<and> phone = q @ [CHR 0x0A])"
  using valid_plus_digits plus_digits_valid plus_digits_newline_valid by blast

text \<open>
  A row whose phone fails the check of the code is logged as invalid and no create call
  goes to its number.
\<close>

lemma invalid_phone_is_skipped:
  assumes "checks_pass tw g" and "customer_data g = Some data" and "r \<in> set data"
    and "\<not> is_valid_phone_number (Phone_Number r)"
  shows "Invalid_phone_number_skipped (Phone_Number r) \<in> set (skip_log (send_sms tw g)) \<and>
         (\<forall>b f. Messages_create b f (Phone_Number r) \<notin> set (calls (send_sms tw g)))"
proof -
  have "\<not> eligible (opted_out_numbers g) r" using assms(4) by (simp add: eligible_def)
  from skipped_row_logged [OF assms(1-3) this] assms(4)
  have "Invalid_phone_number_skipped (Phone_Number r) \<in> set (skip_log (send_sms tw g))"
    by (simp add: skip_line_def)
  moreover have "\<forall>b f. Messages_create b f (Phone_Number r) \<notin> set (calls (send_sms tw g))"
    using no_create_unless_eligible assms(4) by blast
  ultimately show ?thesis by blast
qed

text \<open>
  Claim C2: a phone that does not match \<^verbatim>\<open>^\+[0-9]+$\<close> is skipped as invalid and no
  provider call is made for it. The code keeps this promise for every phone that its own
  check rejects (\<open>invalid_phone_is_skipped\<close>), but its check accepts one more shape
  (\<open>is_valid_phone_number_iff\<close>): a plus sign and digits followed by a final newline. Such
  a phone is not digits only after the plus sign, and the run below, whose single row has
  such a cell, logs no skip, sends the message to it and polls its status.
\<close>

theorem C2_trailing_newline_is_sent:
  "\<not> plus_digits (Phone_Number dan) \<and>
   is_valid_phone_number (Phone_Number dan) \<and>
   skip_log (send_sms (account (\<lambda>i. Returns ''SM1'') []) (window (Some [dan]) {})) = [] \<and>
   calls (send_sms (account (\<lambda>i. Returns ''SM1'') []) (window (Some [dan]) {})) =
     [Accounts_fetch ''AC1'',
      Messages_create ''Hi Dan!'' ''+15550000000'' (''+15550001111'' @ [CHR 0x0A]),
      Messages_fetch ''SM1'', Messages_fetch ''SM1'', Messages_fetch ''SM1'']"
  by (simp add: run_eval plus_digits_def)

subsection \<open>Opted-out numbers\<close>




subsection \<open>What the run collects\<close>

lemma started_skip_log:
  assumes "checks_pass tw g" and "customer_data g = Some data"
  shows "skip_log (send_sms tw g) =
           map skip_line (filter (\<lambda>r. \<not> eligible (opted_out_numbers g) r) data)"
  using assms by (simp add: send_sms_dispatch dispatch_eq Let_def)

lemma started_send_log:
  assumes "checks_pass tw g" and "customer_data g = Some data"
  shows "send_log (send_sms tw g) = map snd (run_jobs tw (phone_entry g) (jobs_of g data))"
  using assms by (simp add: send_sms_dispatch dispatch_eq Let_def)

lemma started_status_log:
  assumes "checks_pass tw g" and "customer_data g = Some data"
  shows "status_log (send_sms tw g) =
           map (\<lambda>c. fst (snd c)) (check_all tw (message_sids (send_sms tw g)))"
  using assms by (simp add: send_sms_dispatch dispatch_eq Let_def)

lemma started_finishes:
  assumes "checks_pass tw g" and "customer_data g = Some data"
  shows "uncaught (send_sms tw g) = None \<and>
         dialog (send_sms tw g) = Some (Showinfo ''Success'' ''SMS messages processed!'') \<and>
         run_log (send_sms tw g) = [SMS_sending_started, SMS_sending_finished]"
  using assms by (simp add: send_sms_dispatch dispatch_eq Let_def)

lemma length_filter_split:
  "length (filter (\<lambda>x. \<not> P x) xs) + length (filter P xs) = length xs"
  by (induction xs) simp_all

text \<open>
  The list \<^verbatim>\<open>message_sids\<close> is the only per-recipient collection that \<^verbatim>\<open>send_sms\<close>
  builds. For one input row with an invalid phone it stays empty.
\<close>

theorem C1_counterexample:
  "length (message_sids (send_sms (account (\<lambda>i. Returns ''SM1'') []) (window (Some [bob]) {})))
     \<noteq> length [bob]"
  by (simp add: run_eval)

text \<open>
  Claim C1, as the code has it. In a run that starts on \<open>N\<close> rows, every row gets exactly
  one send-outcome line in the log: the skipped rows one skip line each, in input order,
  and the other rows one line each from the job that sends to them, \<open>N\<close> lines in all. The
  collected list \<^verbatim>\<open>message_sids\<close> has one entry for each job that returned a non-empty
  SID, no more and no fewer, in the order in which the jobs completed.
\<close>

theorem C1_one_entry_per_sent_message:
  assumes "checks_pass tw g" and "customer_data g = Some data"
  shows "skip_log (send_sms tw g) =
           map skip_line (filter (\<lambda>r. \<not> eligible (opted_out_numbers g) r) data) \<and>
         length (send_log (send_sms tw g)) = length (filter (eligible (opted_out_numbers g)) data) \<and>
         length (skip_log (send_sms tw g)) + length (send_log (send_sms tw g)) = length data \<and>
         map fst (message_sids (send_sms tw g)) =
           truthy (as_completed (completion tw) (send_results tw g data)) \<and>
         mset (map fst (message_sids (send_sms tw g))) = mset (truthy (send_results tw g data)) \<and>
         length (message_sids (send_sms tw g)) \<le> length (filter (eligible (opted_out_numbers g)) data)"
proof -
  let ?R = "send_sms tw g"
  have skip: "skip_log ?R = map skip_line (filter (\<lambda>r. \<not> eligible (opted_out_numbers g) r) data)"
    by (rule started_skip_log [OF assms])
  have send: "length (send_log ?R) = length (filter (eligible (opted_out_numbers g)) data)"
    by (simp add: started_send_log [OF assms] length_run_jobs jobs_of_def)
  have total: "length (skip_log ?R) + length (send_log ?R) = length data"
    by (simp only: skip send length_map length_filter_split)
  have sids: "map fst (message_sids ?R) =
      truthy (as_completed (completion tw) (send_results tw g data))"
    by (rule started_sids [OF assms])
  have perm: "mset (map fst (message_sids ?R)) = mset (truthy (send_results tw g data))"
    by (simp only: sids truthy_as_completed)
  have "length (map fst (message_sids ?R)) = length (truthy (send_results tw g data))"
    using perm by (rule mset_eq_length)
  also have "\<dots> \<le> length (send_results tw g data)" by (rule length_truthy)
  also have "\<dots> = length (filter (eligible (opted_out_numbers g)) data)"
    by (simp add: length_send_results jobs_of_def)
  finally have bound: "length (message_sids ?R) \<le> length (filter (eligible (opted_out_numbers g)) data)"
    by simp
  from skip send total sids perm bound show ?thesis by (intro conjI)
qed

theorem C1_one_entry_per_sent_message_witness:
  "skip_log (send_sms (account (\<lambda>i. if i = 1 then Raises else if i = 0 then Returns ''SM1'' else Returns ''SM3'') [2, 0])
       (window (Some [alice, carl, bob, alice]) {})) = [Invalid_phone_number_skipped ''bad-phone''] \<and>
   length (send_log (send_sms (account (\<lambda>i. if i = 1 then Raises else if i = 0 then Returns ''SM1'' else Returns ''SM3'') [2, 0])
       (window (Some [alice, carl, bob, alice]) {}))) = 3 \<and>
   map fst (message_sids (send_sms (account (\<lambda>i. if i = 1 then Raises else if i = 0 then Returns ''SM1'' else Returns ''SM3'') [2, 0])
       (window (Some [alice, carl, bob, alice]) {}))) = [''SM3'', ''SM1'']"
proof -
  let ?tw = "account (\<lambda>i. if i = 1 then Raises else if i = 0 then Returns ''SM1'' else Returns ''SM3'') [2, 0]"
  let ?g = "window (Some [alice, carl, bob, alice]) {}"
  have a: "checks_pass ?tw ?g" by (simp add: checks_pass_def window_def account_def)
  have b: "customer_data ?g = Some [alice, carl, bob, alice]" by (simp add: window_def)
  have e: "filter (eligible (opted_out_numbers ?g)) [alice, carl, bob, alice] = [alice, carl, alice]"
    by (simp add: eligible_def run_eval)
  have n: "filter (\<lambda>r. \<not> eligible (opted_out_numbers ?g) r) [alice, carl, bob, alice] = [bob]"
    by (simp add: eligible_def run_eval)
  have r: "send_results ?tw ?g [alice, carl, bob, alice] = [Some ''SM1'', None, Some ''SM3'']"
    by (simp add: send_results_def jobs_of_def job_of_def eligible_def run_eval)
  have c: "completion ?tw = [2, 0]" by (simp add: account_def)
  have s: "skip_line bob = Invalid_phone_number_skipped ''bad-phone''"
    by (simp add: skip_line_def run_eval)
  from C1_one_entry_per_sent_message [OF a b] show ?thesis
    by (simp only: e n r c s list.map list.size) simp
qed

subsection \<open>Failures of single sends\<close>

lemma started_creates:
  assumes "checks_pass tw g" and "customer_data g = Some data"
  shows "filter is_create (calls (send_sms tw g)) =
           map (\<lambda>j. Messages_create (body j) (phone_entry g) (to_phone j)) (jobs_of g data)"
proof -
  have "filter is_create (map (\<lambda>j. Messages_create (body j) (phone_entry g) (to_phone j)) jobs) =
        map (\<lambda>j. Messages_create (body j) (phone_entry g) (to_phone j)) jobs" for jobs
    by (induction jobs) simp_all
  then show ?thesis
    by (simp add: started_calls [OF assms] filter_create_fetch_calls)
qed

lemma started_send_log_nth:
  assumes "checks_pass tw g" and "customer_data g = Some data" and "i < length (jobs_of g data)"
  shows "send_log (send_sms tw g) ! i =
     (case messages_create tw i (body (jobs_of g data ! i)) (phone_entry g)
             (to_phone (jobs_of g data ! i)) of
        Returns sid \<Rightarrow> Message_sent (to_name (jobs_of g data ! i)) (to_phone (jobs_of g data ! i)) sid
      | Raises \<Rightarrow> Failed_to_send_message (to_name (jobs_of g data ! i)) (to_phone (jobs_of g data ! i)))"
  using assms(3)
  by (simp add: started_send_log [OF assms(1,2)] length_run_jobs run_jobs_nth send_single_sms_def
      split: response.splits)

text \<open>
  Claim C7. In a run that starts, whatever the provider answers to the create calls: no
  exception leaves \<^verbatim>\<open>send_sms\<close> and the run ends with its closing dialog; one create
  call is made for every row that passes the two guards, in submission order; and job \<open>i\<close>
  returns \<^verbatim>\<open>None\<close> and logs the failed send exactly when its own create call raises,
  and otherwise returns the SID and logs the sent message.
\<close>

theorem C7_send_failure_is_contained:
  assumes "checks_pass tw g" and "customer_data g = Some data"
  shows "uncaught (send_sms tw g) = None \<and>
         dialog (send_sms tw g) = Some (Showinfo ''Success'' ''SMS messages processed!'') \<and>
         filter is_create (calls (send_sms tw g)) =
           map (\<lambda>j. Messages_create (body j) (phone_entry g) (to_phone j)) (jobs_of g data) \<and>
         length (send_log (send_sms tw g)) = length (jobs_of g data) \<and>
         (\<forall>i<length (jobs_of g data).
            send_results tw g data ! i =
              (case messages_create tw i (body (jobs_of g data ! i)) (phone_entry g)
                      (to_phone (jobs_of g data ! i)) of
                 Returns sid \<Rightarrow> Some sid
               | Raises \<Rightarrow> None) \<and>
            send_log (send_sms tw g) ! i =
              (case messages_create tw i (body (jobs_of g data ! i)) (phone_entry g)
                      (to_phone (jobs_of g data ! i)) of
                 Returns sid \<Rightarrow>
                   Message_sent (to_name (jobs_of g data ! i)) (to_phone (jobs_of g data ! i)) sid
               | Raises \<Rightarrow>
                   Failed_to_send_message (to_name (jobs_of g data ! i)) (to_phone (jobs_of g data ! i))))"
proof -
  have len: "length (send_log (send_sms tw g)) = length (jobs_of g data)"
    by (simp add: started_send_log [OF assms] length_run_jobs)
  from started_finishes [OF assms] started_creates [OF assms] len
    send_results_nth [of _ g data tw] started_send_log_nth [OF assms]
  show ?thesis by (intro conjI allI impI) simp_all
qed

theorem C7_send_failure_is_contained_witness:
  "dialog (send_sms (account (\<lambda>i. if i = 1 then Raises else Returns ''SM1'') [])
       (window (Some [alice, carl, alice]) {})) = Some (Showinfo ''Success'' ''SMS messages processed!'') \<and>
   filter is_create (calls (send_sms (account (\<lambda>i. if i = 1 then Raises else Returns ''SM1'') [])
       (window (Some [alice, carl, alice]) {}))) =
     [Messages_create ''Hi Alice!'' ''+15550000000'' ''+15551234567'',
      Messages_create ''Hi Carl!'' ''+15550000000'' ''+15559876543'',
      Messages_create ''Hi Alice!'' ''+15550000000'' ''+15551234567''] \<and>
   send_log (send_sms (account (\<lambda>i. if i = 1 then Raises else Returns ''SM1'') [])
       (window (Some [alice, carl, alice]) {})) ! 1 = Failed_to_send_message ''Carl'' ''+15559876543'' \<and>
   send_log (send_sms (account (\<lambda>i. if i = 1 then Raises else Returns ''SM1'') [])
       (window (Some [alice, carl, alice]) {})) ! 2 = Message_sent ''Alice'' ''+15551234567'' ''SM1''"
proof -
  let ?tw = "account (\<lambda>i. if i = 1 then Raises else Returns ''SM1'') []"
  let ?g = "window (Some [alice, carl, alice]) {}"
  have a: "checks_pass ?tw ?g" by (simp add: checks_pass_def window_def account_def)
  have b: "customer_data ?g = Some [alice, carl, alice]" by (simp add: window_def)
  have j: "jobs_of ?g [alice, carl, alice] =
      [\<lparr>to_name = ''Alice'', to_phone = ''+15551234567'', body = ''Hi Alice!''\<rparr>,
       \<lparr>to_name = ''Carl'', to_phone = ''+15559876543'', body = ''Hi Carl!''\<rparr>,
       \<lparr>to_name = ''Alice'', to_phone = ''+15551234567'', body = ''Hi Alice!''\<rparr>]"
    by (simp add: jobs_of_def job_of_def eligible_def run_eval)
  have p: "phone_entry ?g = ''+15550000000''" by (simp add: window_def)
  have m: "messages_create ?tw = (\<lambda>i message_body sender destination. if i = 1 then Raises else Returns ''SM1'')"
    by (simp add: account_def)
  from C7_send_failure_is_contained [OF a b] show ?thesis
    unfolding j p m by simp
qed

subsection \<open>Status checks and the row they are attributed to\<close>

lemma check_loop_line:
  "fst (snd (check_loop fetch nm ph i n)) \<in>
     {Message_delivered nm ph, Message_failed nm ph, Delivery_status_unknown nm ph,
      Failed_to_check_status nm ph}"
  by (induction n arbitrary: i) (auto split: response.splits)

lemma check_all_lines:
  assumes "\<forall>e\<in>set sids. snd e = (nm, ph)"
  shows "\<forall>c\<in>set (check_all tw sids). fst (snd c) \<in>
     {Message_delivered nm ph, Message_failed nm ph, Delivery_status_unknown nm ph,
      Failed_to_check_status nm ph}"
proof
  fix c
  assume "c \<in> set (check_all tw sids)"
  then obtain k e where e: "e \<in> set sids"
    and c: "c = check_message_status (messages_fetch tw k (fst e)) (fst e) (fst (snd e)) (snd (snd e))"
    by (auto simp: check_all_def enumerate_eq_zip dest!: set_zip_rightD)
  from assms e have "fst (snd e) = nm" "snd (snd e) = ph" by auto
  with c show "fst (snd c) \<in>
     {Message_delivered nm ph, Message_failed nm ph, Delivery_status_unknown nm ph,
      Failed_to_check_status nm ph}"
    using check_loop_line [of "messages_fetch tw k (fst e)" nm ph 0 10]
    by (simp add: check_message_status_def)
qed

lemma length_check_all: "length (check_all tw sids) = length sids"
  by (simp add: check_all_def)

lemma jobs_of_Nil: "jobs_of g [] = []"
  by (simp add: jobs_of_def)

text \<open>
  Claim C8: a status check, and so a delivery outcome, belongs only to a recipient whose
  send succeeded. The code starts one status check for each non-empty SID collected
  (\<open>started_sids\<close> and \<open>length_check_all\<close>), but it passes to the check the
  name and phone of the row that the submission loop visited last. In the run below Alice's
  message is sent and Carl is skipped as opted out, and the delivery is logged for Carl.
\<close>

theorem C8_delivery_attached_to_unsent_recipient:
  "send_log (send_sms (account (\<lambda>i. Returns ''SM1'') [])
       (window (Some [alice, bob, carl]) {''+15559876543''})) =
     [Message_sent ''Alice'' ''+15551234567'' ''SM1''] \<and>
   skip_log (send_sms (account (\<lambda>i. Returns ''SM1'') [])
       (window (Some [alice, bob, carl]) {''+15559876543''})) =
     [Invalid_phone_number_skipped ''bad-phone'', Skipping_opted_out_number ''+15559876543''] \<and>
   message_sids (send_sms (account (\<lambda>i. Returns ''SM1'') [])
       (window (Some [alice, bob, carl]) {''+15559876543''})) =
     [(''SM1'', ''Carl'', ''+15559876543'')] \<and>
   status_log (send_sms (account (\<lambda>i. Returns ''SM1'') [])
       (window (Some [alice, bob, carl]) {''+15559876543''})) =
     [Message_delivered ''Carl'' ''+15559876543'']"
  by (simp add: run_eval)

text \<open>
  Claim C10. Every entry of \<^verbatim>\<open>message_sids\<close> carries the name and the phone of the last
  row of the input, the row on which the submission loop ended, whichever row its message
  was sent to; every line of the status checks names that row; and there is one status
  check per entry.
\<close>

theorem C10_sids_carry_last_row:
  assumes "customer_data g = Some data"
  shows "(\<forall>e\<in>set (message_sids (send_sms tw g)).
            data \<noteq> [] \<and> snd e = (Name (last data), Phone_Number (last data))) \<and>
         (\<forall>l\<in>set (status_log (send_sms tw g)).
            l \<in> {Message_delivered (Name (last data)) (Phone_Number (last data)),
                 Message_failed (Name (last data)) (Phone_Number (last data)),
                 Delivery_status_unknown (Name (last data)) (Phone_Number (last data)),
                 Failed_to_check_status (Name (last data)) (Phone_Number (last data))}) \<and>
         length (status_log (send_sms tw g)) = length (message_sids (send_sms tw g))"
proof (cases "checks_pass tw g")
  case False
  from send_sms_not_started [OF this] show ?thesis by simp
next
  case True
  let ?R = "send_sms tw g"
  have sids: "message_sids ?R =
      map (\<lambda>sid. (sid, Name (last data), Phone_Number (last data)))
        (truthy (as_completed (completion tw) (send_results tw g data)))"
    by (rule started_message_sids [OF True assms])
  have attr: "\<forall>e\<in>set (message_sids ?R). snd e = (Name (last data), Phone_Number (last data))"
    unfolding sids by simp
  have nonempty: "data \<noteq> []" if "e \<in> set (message_sids ?R)" for e
  proof
    assume "data = []"
    then have "send_results tw g data = []" by (simp add: send_results_def run_jobs_def jobs_of_Nil)
    then have "message_sids ?R = []" unfolding sids by simp
    with that show False by simp
  qed
  have lines: "\<forall>l\<in>set (status_log ?R).
            l \<in> {Message_delivered (Name (last data)) (Phone_Number (last data)),
                 Message_failed (Name (last data)) (Phone_Number (last data)),
                 Delivery_status_unknown (Name (last data)) (Phone_Number (last data)),
                 Failed_to_check_status (Name (last data)) (Phone_Number (last data))}"
    using check_all_lines [OF attr, of tw]
    unfolding started_status_log [OF True assms] by auto
  have len: "length (status_log ?R) = length (message_sids ?R)"
    by (simp add: started_status_log [OF True assms] length_check_all)
  from attr nonempty lines len show ?thesis by blast
qed

theorem C10_sids_carry_last_row_witness:
  "message_sids (send_sms (account (\<lambda>i. Returns ''SM1'') []) (window (Some [alice, bob]) {})) =
     [(''SM1'', ''Bob'', ''bad-phone'')] \<and>
   last [alice, bob] = bob \<and>
   filter is_create (calls (send_sms (account (\<lambda>i. Returns ''SM1'') []) (window (Some [alice, bob]) {}))) =
     [Messages_create ''Hi Alice!'' ''+15550000000'' ''+15551234567''] \<and>
   status_log (send_sms (account (\<lambda>i. Returns ''SM1'') []) (window (Some [alice, bob]) {})) =
     [Message_delivered ''Bob'' ''bad-phone'']"
proof -
  have b: "customer_data (window (Some [alice, bob]) {}) = Some [alice, bob]"
    by (simp add: window_def)
  from C10_sids_carry_last_row [OF b, of "account (\<lambda>i. Returns ''SM1'') []"] show ?thesis
    by (simp add: run_eval)
qed

subsection \<open>The checks before a run\<close>

text \<open>
  A spreadsheet with no rows has been loaded: the run starts, sends nothing, finishes and
  reports success.
\<close>

theorem C9_counterexample:
  "customer_data (window (Some []) {}) = Some [] \<and>
   run_log (send_sms (account (\<lambda>i. Raises) []) (window (Some []) {})) =
     [SMS_sending_started, SMS_sending_finished] \<and>
   dialog (send_sms (account (\<lambda>i. Raises) []) (window (Some []) {})) =
     Some (Showinfo ''Success'' ''SMS messages processed!'')"
  by (simp add: run_eval)

text \<open>
  Claim C9, as the code has it. The run starts exactly when customer data has been loaded
  (with or without rows), the three credential entries and the message text are not empty,
  and the credential check succeeds. Otherwise the first check that fails decides the one
  error dialog shown, a different one for missing data, missing credentials, missing
  message text and rejected credentials, and nothing is sent.
\<close>

theorem C9_run_starts_iff_checks_pass:
  "(SMS_sending_started \<in> set (run_log (send_sms tw g))) =
     (customer_data g \<noteq> None \<and> sid_entry g \<noteq> [] \<and> token_entry g \<noteq> [] \<and> phone_entry g \<noteq> [] \<and>
      message_entry g \<noteq> [] \<and> accounts_fetch tw (sid_entry g) (token_entry g) = Returns ()) \<and>
   (customer_data g = None \<longrightarrow>
      send_sms tw g = no_run\<lparr>dialog := Some (Showerror ''Error'' ''Please load customer data first.'')\<rparr>) \<and>
   (customer_data g \<noteq> None \<and> (sid_entry g = [] \<or> token_entry g = [] \<or> phone_entry g = []) \<longrightarrow>
      send_sms tw g = no_run\<lparr>dialog := Some (Showerror ''Error'' ''Please enter all Twilio credentials.'')\<rparr>) \<and>
   (customer_data g \<noteq> None \<and> sid_entry g \<noteq> [] \<and> token_entry g \<noteq> [] \<and> phone_entry g \<noteq> [] \<and>
    message_entry g = [] \<longrightarrow>
      send_sms tw g = no_run\<lparr>dialog := Some (Showerror ''Error'' ''Please enter the message text.'')\<rparr>) \<and>
   (customer_data g \<noteq> None \<and> sid_entry g \<noteq> [] \<and> token_entry g \<noteq> [] \<and> phone_entry g \<noteq> [] \<and>
    message_entry g \<noteq> [] \<and> accounts_fetch tw (sid_entry g) (token_entry g) = Raises \<longrightarrow>
      send_sms tw g =
        no_run\<lparr>dialog := Some (Showerror ''Authentication Error''
                   (''Failed to authenticate Twilio credentials.'' @ [CHR 0x0A] @
                    ''Please check your Account SID, Auth Token, and Twilio Phone Number.'')),
               run_log := [Failed_to_authenticate],
               calls := [Accounts_fetch (sid_entry g)]\<rparr>) \<and>
   (SMS_sending_started \<notin> set (run_log (send_sms tw g)) \<longrightarrow>
      filter is_create (calls (send_sms tw g)) = [] \<and> message_sids (send_sms tw g) = [] \<and>
      send_log (send_sms tw g) = [] \<and> status_log (send_sms tw g) = [])"
proof -
  have started: "(SMS_sending_started \<in> set (run_log (send_sms tw g))) = checks_pass tw g"
  proof (cases "checks_pass tw g")
    case True
    then obtain data where "customer_data g = Some data" using checks_pass_data by blast
    from started_finishes [OF True this] True show ?thesis by simp
  next
    case False
    then have "SMS_sending_started \<notin> set (run_log (send_sms tw g))"
      by (auto simp: send_sms_def checks_pass_def no_run_def split: option.splits response.splits)
    with False show ?thesis by simp
  qed
  have unsent: "filter is_create (calls (send_sms tw g)) = [] \<and> message_sids (send_sms tw g) = [] \<and>
      send_log (send_sms tw g) = [] \<and> status_log (send_sms tw g) = []"
    if "\<not> checks_pass tw g"
  proof -
    from send_sms_not_started [OF that]
    have "\<forall>c\<in>set (calls (send_sms tw g)). \<not> is_create c" by auto
    then have "filter is_create (calls (send_sms tw g)) = []" by (simp add: filter_empty_conv)
    with send_sms_not_started [OF that] show ?thesis by simp
  qed
  have a: "customer_data g = None \<longrightarrow>
      send_sms tw g = no_run\<lparr>dialog := Some (Showerror ''Error'' ''Please load customer data first.'')\<rparr>"
    by (simp add: send_sms_def)
  have b: "customer_data g \<noteq> None \<and> (sid_entry g = [] \<or> token_entry g = [] \<or> phone_entry g = []) \<longrightarrow>
      send_sms tw g = no_run\<lparr>dialog := Some (Showerror ''Error'' ''Please enter all Twilio credentials.'')\<rparr>"
    by (auto simp: send_sms_def)
  have c: "customer_data g \<noteq> None \<and> sid_entry g \<noteq> [] \<and> token_entry g \<noteq> [] \<and> phone_entry g \<noteq> [] \<and>
    message_entry g = [] \<longrightarrow>
      send_sms tw g = no_run\<lparr>dialog := Some (Showerror ''Error'' ''Please enter the message text.'')\<rparr>"
    by (auto simp: send_sms_def)
  have d: "customer_data g \<noteq> None \<and> sid_entry g \<noteq> [] \<and> token_entry g \<noteq> [] \<and> phone_entry g \<noteq> [] \<and>
    message_entry g \<noteq> [] \<and> accounts_fetch tw (sid_entry g) (token_entry g) = Raises \<longrightarrow>
      send_sms tw g =
        no_run\<lparr>dialog := Some (Showerror ''Authentication Error''
                   (''Failed to authenticate Twilio credentials.'' @ [CHR 0x0A] @
                    ''Please check your Account SID, Auth Token, and Twilio Phone Number.'')),
               run_log := [Failed_to_authenticate],
               calls := [Accounts_fetch (sid_entry g)]\<rparr>"
    by (auto simp: send_sms_def)
  have started': "(SMS_sending_started \<in> set (run_log (send_sms tw g))) =
     (customer_data g \<noteq> None \<and> sid_entry g \<noteq> [] \<and> token_entry g \<noteq> [] \<and> phone_entry g \<noteq> [] \<and>
      message_entry g \<noteq> [] \<and> accounts_fetch tw (sid_entry g) (token_entry g) = Returns ())"
    using started by (simp add: checks_pass_def)
  have unsent': "SMS_sending_started \<notin> set (run_log (send_sms tw g)) \<longrightarrow>
      filter is_create (calls (send_sms tw g)) = [] \<and> message_sids (send_sms tw g) = [] \<and>
      send_log (send_sms tw g) = [] \<and> status_log (send_sms tw g) = []"
  proof
    assume "SMS_sending_started \<notin> set (run_log (send_sms tw g))"
    with started have ncp: "\<not> checks_pass tw g" by simp
    show "filter is_create (calls (send_sms tw g)) = [] \<and> message_sids (send_sms tw g) = [] \<and>
      send_log (send_sms tw g) = [] \<and> status_log (send_sms tw g) = []"
      using unsent [OF ncp] .
  qed
  from started' a b c d unsent' show ?thesis by (intro conjI)
qed

theorem C9_run_starts_iff_checks_pass_witness:
  "dialog (send_sms (account (\<lambda>i. Returns ''SM1'') []) (window None {})) =
     Some (Showerror ''Error'' ''Please load customer data first.'') \<and>
   dialog (send_sms (account (\<lambda>i. Returns ''SM1'') []) ((window (Some [alice]) {})\<lparr>token_entry := ''''\<rparr>)) =
     Some (Showerror ''Error'' ''Please enter all Twilio credentials.'') \<and>
   dialog (send_sms (account (\<lambda>i. Returns ''SM1'') []) ((window (Some [alice]) {})\<lparr>message_entry := ''''\<rparr>)) =
     Some (Showerror ''Error'' ''Please enter the message text.'') \<and>
   calls (send_sms ((account (\<lambda>i. Returns ''SM1'') [])\<lparr>accounts_fetch := \<lambda>account_sid auth_token. Raises\<rparr>)
       (window (Some [alice]) {})) = [Accounts_fetch ''AC1''] \<and>
   SMS_sending_started \<in> set (run_log (send_sms (account (\<lambda>i. Returns ''SM1'') []) (window (Some [alice]) {}))) \<and>
   filter is_create (calls (send_sms (account (\<lambda>i. Returns ''SM1'') []) (window None {}))) = []"
proof -
  let ?tw = "account (\<lambda>i. Returns ''SM1'') []"
  have 1: "dialog (send_sms ?tw (window None {})) =
     Some (Showerror ''Error'' ''Please load customer data first.'')"
    using C9_run_starts_iff_checks_pass [of ?tw "window None {}"]
    by (simp add: window_def no_run_def)
  have 2: "dialog (send_sms ?tw ((window (Some [alice]) {})\<lparr>token_entry := ''''\<rparr>)) =
     Some (Showerror ''Error'' ''Please enter all Twilio credentials.'')"
    using C9_run_starts_iff_checks_pass [of ?tw "(window (Some [alice]) {})\<lparr>token_entry := ''''\<rparr>"]
    by (simp add: window_def no_run_def)
  have 3: "dialog (send_sms ?tw ((window (Some [alice]) {})\<lparr>message_entry := ''''\<rparr>)) =
     Some (Showerror ''Error'' ''Please enter the message text.'')"
    using C9_run_starts_iff_checks_pass [of ?tw "(window (Some [alice]) {})\<lparr>message_entry := ''''\<rparr>"]
    by (simp add: window_def no_run_def)
  have 4: "calls (send_sms (?tw\<lparr>accounts_fetch := \<lambda>account_sid auth_token. Raises\<rparr>)
       (window (Some [alice]) {})) = [Accounts_fetch ''AC1'']"
    using C9_run_starts_iff_checks_pass
      [of "?tw\<lparr>accounts_fetch := \<lambda>account_sid auth_token. Raises\<rparr>" "window (Some [alice]) {}"]
    by (simp add: window_def no_run_def account_def)
  have 5: "SMS_sending_started \<in> set (run_log (send_sms ?tw (window (Some [alice]) {})))"
    using C9_run_starts_iff_checks_pass [of ?tw "window (Some [alice]) {}"]
    by (simp add: window_def account_def)
  have 6: "filter is_create (calls (send_sms ?tw (window None {}))) = []"
    using C9_run_starts_iff_checks_pass [of ?tw "window None {}"]
    by (simp add: window_def no_run_def)
  from 1 2 3 4 5 6 show ?thesis by (intro conjI)
qed

end
